theory Spec2Isabelle
  imports Main "HOL-Library.Char_ord" "HOL-Library.List_Lexorder" "HOL-Library.Sublist"
begin

section \<open>Python values and strings\<close>

text \<open>
  A Python \<open>str\<close> is modelled by the list of the bytes of its UTF-8 encoding
  (\<open>string\<close>): equality, the code point order, emptiness, \<open>endswith('/')\<close> and
  splitting at \<open>'/'\<close> are the same on the encoding as on the code points. File contents
  are byte lists as well.
\<close>

type_synonym bytes = "char list"

text \<open>The exceptions the program can meet. \<open>OSError\<close> carries the errno.\<close>

datatype oserr = ENOENT | ENOTDIR | EISDIR | EEXIST

datatype exn =
    IndexError
  | AttributeError
  | TypeError
  | ValueError
  | OSError oserr
  | RequestException
  | HTTPError nat
  | BadZipFile
  | EOFError

text \<open>\<open>xs[i]\<close> for a non-negative index: out of range raises.\<close>

definition py_index :: "'a list \<Rightarrow> nat \<Rightarrow> exn + 'a" where
  "py_index xs i = (if i < length xs then Inr (xs ! i) else Inl IndexError)"

text \<open>
  \<open>a > b\<close> on two \<open>str\<close>: the first position where they differ decides, by code
  point; when one is a prefix of the other the longer one is the greater.
\<close>

fun str_gt :: "string \<Rightarrow> string \<Rightarrow> bool" where
  "str_gt [] b = False"
| "str_gt (x # xs) [] = True"
| "str_gt (x # xs) (y # ys) =
     (if x = y then str_gt xs ys else (of_char y :: nat) < of_char x)"

text \<open>\<open>s.split('/')\<close>: never empty, \<open>''.split('/') == ['']\<close>.\<close>

fun split_slash :: "string \<Rightarrow> string list" where
  "split_slash [] = [[]]"
| "split_slash (c # cs) =
     (if c = CHR ''/'' then [] # split_slash cs
      else (case split_slash cs of [] \<Rightarrow> [[c]] | x # xs \<Rightarrow> (c # x) # xs))"

text \<open>\<open>s.split('/', 1)\<close>: one split at most, at the first \<open>'/'\<close>.\<close>

definition split_slash1 :: "string \<Rightarrow> string list" where
  "split_slash1 s =
     (if CHR ''/'' \<in> set s
      then [takeWhile (\<lambda>c. c \<noteq> CHR ''/'') s, tl (dropWhile (\<lambda>c. c \<noteq> CHR ''/'') s)]
      else [s])"

definition endswith_slash :: "string \<Rightarrow> bool" where
  "endswith_slash s = (s \<noteq> [] \<and> last s = CHR ''/'')"

text \<open>
  The values \<open>data.get("version")\<close> can give: \<open>None\<close>, a \<open>str\<close>, or any other
  JSON value (number, boolean, list, dict). The program never looks inside the other values;
  what Python does with them (truth value, \<open>==\<close>, \<open>>\<close>) is a parameter of the
  model, the record \<open>pyops\<close>. \<open>other_gt\<close> gives \<open>None\<close> where \<open>>\<close> raises
  \<open>TypeError\<close>.
\<close>

datatype 'o pyval = PNone | PStr string | POther 'o

record 'o pyops =
  other_truthy :: "'o \<Rightarrow> bool"
  other_eq :: "'o \<Rightarrow> 'o \<Rightarrow> bool"
  other_gt :: "'o \<Rightarrow> 'o \<Rightarrow> bool option"

fun py_truthy :: "'o pyops \<Rightarrow> 'o pyval \<Rightarrow> bool" where
  "py_truthy ops PNone = False"
| "py_truthy ops (PStr s) = (s \<noteq> [])"
| "py_truthy ops (POther v) = other_truthy ops v"

fun py_ne :: "'o pyops \<Rightarrow> 'o pyval \<Rightarrow> 'o pyval \<Rightarrow> bool" where
  "py_ne ops PNone PNone = False"
| "py_ne ops (PStr a) (PStr b) = (a \<noteq> b)"
| "py_ne ops (POther a) (POther b) = (\<not> other_eq ops a b)"
| "py_ne ops a b = True"

text \<open>
  \<open>a > b\<close>: between two \<open>str\<close> the string order; \<open>None\<close> is ordered with
  nothing and a \<open>str\<close> with no other JSON value (\<open>TypeError\<close>).
\<close>

fun py_gt :: "'o pyops \<Rightarrow> 'o pyval \<Rightarrow> 'o pyval \<Rightarrow> exn + bool" where
  "py_gt ops (PStr a) (PStr b) = Inr (str_gt a b)"
| "py_gt ops (POther a) (POther b) =
     (case other_gt ops a b of None \<Rightarrow> Inl TypeError | Some r \<Rightarrow> Inr r)"
| "py_gt ops a b = Inl TypeError"

text \<open>
  What \<open>json.load\<close> and \<open>response.json()\<close> return: a dict (keys are strings), or a
  value that is not a dict and has no \<open>get\<close>.
\<close>

datatype 'o json = JDict "string \<rightharpoonup> 'o pyval" | JNotDict

text \<open>\<open>data.get(key)\<close> and \<open>data.get(key, default)\<close>.\<close>

definition json_get :: "'o json \<Rightarrow> string \<Rightarrow> 'o pyval \<Rightarrow> exn + 'o pyval" where
  "json_get data k dflt =
     (case data of
        JNotDict \<Rightarrow> Inl AttributeError
      | JDict m \<Rightarrow> (case m k of None \<Rightarrow> Inr dflt | Some v \<Rightarrow> Inr v))"

section \<open>Paths and the file tree\<close>

text \<open>\<open>os.path.join(a, b)\<close> and \<open>os.path.dirname(p)\<close> of \<open>posixpath\<close>.\<close>

definition posix_join :: "string \<Rightarrow> string \<Rightarrow> string" where
  "posix_join a b =
     (if b \<noteq> [] \<and> hd b = CHR ''/'' then b
      else if a = [] \<or> last a = CHR ''/'' then a @ b
      else a @ CHR ''/'' # b)"

definition rstrip_slash :: "string \<Rightarrow> string" where
  "rstrip_slash s = rev (dropWhile (\<lambda>c. c = CHR ''/'') (rev s))"

definition posix_dirname :: "string \<Rightarrow> string" where
  "posix_dirname p =
     (let head = rev (dropWhile (\<lambda>c. c \<noteq> CHR ''/'') (rev p))
      in if head \<noteq> [] \<and> head \<noteq> replicate (length head) (CHR ''/'')
         then rstrip_slash head else head)"

text \<open>
  The file tree: a node is a directory or a regular file with its bytes, at a location
  (the names from the root). There are no symbolic links and no permissions; the root
  always is a directory. Path strings are resolved from the root (\<open>target_dir\<close> is
  absolute, \<open>__init__\<close> applies \<open>os.path.abspath\<close>).
\<close>

type_synonym path = "string list"

datatype node = Dir | File bytes

type_synonym fs = "path \<rightharpoonup> node"

text \<open>
  Resolution of the components of a path as directories, from the directory \<open>cur\<close>:
  empty components and \<open>.\<close> stay, \<open>..\<close> goes up, a name must be a directory.
\<close>

fun walk :: "fs \<Rightarrow> path \<Rightarrow> string list \<Rightarrow> oserr + path" where
  "walk t cur [] = Inr cur"
| "walk t cur (c # cs) =
     (if c = [] \<or> c = ''.'' then walk t cur cs
      else if c = ''..'' then walk t (butlast cur) cs
      else (case t (cur @ [c]) of
              None \<Rightarrow> Inl ENOENT
            | Some (File b) \<Rightarrow> Inl ENOTDIR
            | Some Dir \<Rightarrow> walk t (cur @ [c]) cs))"

text \<open>
  The location a path string names and the node there, if any: all components but the
  last are resolved as directories.
\<close>

definition lookup :: "fs \<Rightarrow> string \<Rightarrow> oserr + (path \<times> node option)" where
  "lookup t p =
     (if p = [] then Inl ENOENT
      else (case walk t [] (butlast (split_slash p)) of
              Inl e \<Rightarrow> Inl e
            | Inr cur \<Rightarrow>
                (let c = last (split_slash p)
                 in if c = [] \<or> c = ''.'' then Inr (cur, Some Dir)
                    else if c = ''..'' then Inr (butlast cur, Some Dir)
                    else Inr (cur @ [c], t (cur @ [c])))))"

definition os_path_exists :: "fs \<Rightarrow> string \<Rightarrow> bool" where
  "os_path_exists t p = (case lookup t p of Inr (loc, Some n) \<Rightarrow> True | _ \<Rightarrow> False)"

definition os_path_isdir :: "fs \<Rightarrow> string \<Rightarrow> bool" where
  "os_path_isdir t p = (case lookup t p of Inr (loc, Some Dir) \<Rightarrow> True | _ \<Rightarrow> False)"

text \<open>\<open>open(p, 'r')\<close> and reading the whole file.\<close>

definition read_file :: "fs \<Rightarrow> string \<Rightarrow> oserr + bytes" where
  "read_file t p =
     (case lookup t p of
        Inl e \<Rightarrow> Inl e
      | Inr (loc, None) \<Rightarrow> Inl ENOENT
      | Inr (loc, Some Dir) \<Rightarrow> Inl EISDIR
      | Inr (loc, Some (File b)) \<Rightarrow> Inr b)"

text \<open>
  \<open>open(p, 'wb')\<close>: creates the file or truncates it; the result is the location of the
  open file and the tree with the empty file.
\<close>

definition open_wb :: "fs \<Rightarrow> string \<Rightarrow> oserr + (path \<times> fs)" where
  "open_wb t p =
     (case lookup t p of
        Inl e \<Rightarrow> Inl e
      | Inr (loc, Some Dir) \<Rightarrow> Inl EISDIR
      | Inr (loc, n) \<Rightarrow> Inr (loc, t(loc \<mapsto> File [])))"

text \<open>
  \<open>os.makedirs(name, exist_ok=True)\<close>: every directory on the way that is missing is
  created, an existing directory is entered, a regular file on the way is an error. The
  directories created before an error stay.
\<close>

fun mkdir_p :: "fs \<Rightarrow> path \<Rightarrow> string list \<Rightarrow> oserr option \<times> fs" where
  "mkdir_p t cur [] = (None, t)"
| "mkdir_p t cur (c # cs) =
     (if c = [] \<or> c = ''.'' then mkdir_p t cur cs
      else if c = ''..'' then mkdir_p t (butlast cur) cs
      else (case t (cur @ [c]) of
              None \<Rightarrow> mkdir_p (t(cur @ [c] \<mapsto> Dir)) (cur @ [c]) cs
            | Some Dir \<Rightarrow> mkdir_p t (cur @ [c]) cs
            | Some (File b) \<Rightarrow> (Some (if cs = [] then EEXIST else ENOTDIR), t)))"

definition makedirs :: "fs \<Rightarrow> string \<Rightarrow> oserr option \<times> fs" where
  "makedirs t name = (if name = [] then (Some ENOENT, t) else mkdir_p t [] (split_slash name))"

text \<open>
  For the statements about paths: the components that name something (not empty and not
  \<open>.\<close>), and the component lists that consist of plain names only.
\<close>

definition names :: "string list \<Rightarrow> string list" where
  "names cs = filter (\<lambda>c. c \<noteq> [] \<and> c \<noteq> ''.'') cs"

definition clean :: "string list \<Rightarrow> bool" where
  "clean cs = (\<forall>c\<in>set cs. c \<noteq> [] \<and> c \<noteq> ''.'' \<and> c \<noteq> ''..'')"

section \<open>The world the updater runs in\<close>

text \<open>
  What \<open>requests.get\<close> gives: it raises, or it returns a response with a status code
  and a body. The body is given parsed (\<open>response.json()\<close> for the version document,
  \<open>zipfile.ZipFile(io.BytesIO(response.content))\<close> for the archive); \<open>None\<close> is a
  body whose reading or parsing raises.
\<close>

datatype 'a response = RequestFailed | Response nat "'a option"

text \<open>\<open>response.raise_for_status()\<close>: 4xx and 5xx raise \<open>HTTPError\<close>.\<close>

definition raise_for_status :: "nat \<Rightarrow> exn option" where
  "raise_for_status st = (if 400 \<le> st \<and> st < 600 then Some (HTTPError st) else None)"

text \<open>
  A member of the archive, in the order of the listing: its name and what
  \<open>z.read(member)\<close> gives (\<open>None\<close> when it raises: bad checksum, unsupported
  compression, encrypted member).
\<close>

record member =
  filename :: string
  contents :: "bytes option"

definition is_dir :: "member \<Rightarrow> bool" where
  "is_dir m = endswith_slash (filename m)"

text \<open>The lines written by \<open>logger\<close> and \<open>print\<close>.\<close>

datatype 'o logline =
    Warn_local_version_not_found
  | Error_reading_local_version exn
  | Error_failed_to_check_remote exn
  | Info_update_available "'o pyval" "'o pyval"
  | Info_up_to_date "'o pyval"
  | Info_downloading
  | Info_extracting string
  | Info_files_updated
  | Info_update_complete
  | Error_critical_update exn
  | Info_forcing
  | Print_restarting
  | Print_initializing
  | Print_new_version "'o pyval"
  | Print_update_finished
  | Print_running "'o pyval"

record 'o world =
  files :: fs
  log :: "'o logline list"

definition say :: "'o logline \<Rightarrow> 'o world \<Rightarrow> 'o world" where
  "say l w = w\<lparr>log := log w @ [l]\<rparr>"

text \<open>
  The environment: Python's operations on the JSON values that are not strings,
  \<open>json.load\<close> on the bytes of a local file (\<open>None\<close> when decoding or parsing
  raises), the answers of the two GET requests, what \<open>os.execv\<close> does (\<open>None\<close>: the
  process image is replaced; otherwise it raises \<open>OSError\<close>) and the line
  \<open>input()\<close> reads (\<open>None\<close>: end of input).
\<close>

record 'o env =
  py :: "'o pyops"
  json_load :: "bytes \<Rightarrow> 'o json option"
  version_response :: "'o json response"
  zip_response :: "member list response"
  execv_error :: "oserr option"
  stdin_line :: "string option"

section \<open>AutoUpdater\<close>

record updater =
  target_dir :: string
  local_version_file :: string

text \<open>\<open>__init__\<close>, given \<open>os.path.abspath(target_dir)\<close>.\<close>

definition AutoUpdater :: "string \<Rightarrow> updater" where
  "AutoUpdater abs_target_dir =
     \<lparr>target_dir = abs_target_dir,
      local_version_file = posix_join abs_target_dir ''version.json''\<rparr>"

definition read_local_version :: "updater \<Rightarrow> 'o env \<Rightarrow> fs \<Rightarrow> exn + 'o pyval" where
  "read_local_version u e t =
     (case read_file t (local_version_file u) of
        Inl err \<Rightarrow> Inl (OSError err)
      | Inr b \<Rightarrow>
          (case json_load e b of
             None \<Rightarrow> Inl ValueError
           | Some data \<Rightarrow> json_get data ''version'' (PStr ''0.0.0'')))"

definition get_local_version :: "updater \<Rightarrow> 'o env \<Rightarrow> 'o world \<Rightarrow> 'o pyval \<times> 'o world" where
  "get_local_version u e w =
     (if \<not> os_path_exists (files w) (local_version_file u)
      then (PStr ''0.0.0'', say Warn_local_version_not_found w)
      else (case read_local_version u e (files w) of
              Inr v \<Rightarrow> (v, w)
            | Inl x \<Rightarrow> (PStr ''0.0.0'', say (Error_reading_local_version x) w)))"

definition fetch_remote_version :: "'o env \<Rightarrow> exn + 'o pyval" where
  "fetch_remote_version e =
     (case version_response e of
        RequestFailed \<Rightarrow> Inl RequestException
      | Response st body \<Rightarrow>
          (case raise_for_status st of
             Some x \<Rightarrow> Inl x
           | None \<Rightarrow>
               (case body of
                  None \<Rightarrow> Inl ValueError
                | Some data \<Rightarrow> json_get data ''version'' PNone)))"

definition get_remote_version :: "updater \<Rightarrow> 'o env \<Rightarrow> 'o world \<Rightarrow> 'o pyval \<times> 'o world" where
  "get_remote_version u e w =
     (case fetch_remote_version e of
        Inr v \<Rightarrow> (v, w)
      | Inl x \<Rightarrow> (PNone, say (Error_failed_to_check_remote x) w))"

text \<open>
  \<open>check_for_updates\<close> returns \<open>(update_available, local_ver, remote_ver)\<close>; the
  comparison \<open>remote_ver > local_ver\<close> is outside any \<open>try\<close>, so its
  \<open>TypeError\<close> leaves the method.
\<close>

definition check_for_updates ::
  "updater \<Rightarrow> 'o env \<Rightarrow> 'o world \<Rightarrow> (exn + bool \<times> 'o pyval \<times> 'o pyval) \<times> 'o world" where
  "check_for_updates u e w =
     (let (local_ver, w1) = get_local_version u e w;
          (remote_ver, w2) = get_remote_version u e w1;
          up_to_date = (Inr (False, local_ver, remote_ver), say (Info_up_to_date local_ver) w2)
      in if py_truthy (py e) remote_ver \<and> py_ne (py e) remote_ver local_ver
         then (case py_gt (py e) remote_ver local_ver of
                 Inl x \<Rightarrow> (Inl x, w2)
               | Inr True \<Rightarrow>
                   (Inr (True, local_ver, remote_ver),
                    say (Info_update_available local_ver remote_ver) w2)
               | Inr False \<Rightarrow> up_to_date)
         else up_to_date)"

text \<open>
  The body of the loop over \<open>z.infolist()\<close> in \<open>do_update\<close>, for one member: the
  result is the exception it raises, if any, and the tree as it is then (nothing is rolled
  back; \<open>open\<close> has truncated the file when \<open>z.read\<close> raises).
\<close>

definition extract_member :: "updater \<Rightarrow> member \<Rightarrow> fs \<Rightarrow> exn option \<times> fs" where
  "extract_member u m t =
     (if is_dir m then (None, t)
      else (case py_index (split_slash1 (filename m)) 1 of
              Inl x \<Rightarrow> (Some x, t)
            | Inr rel_path \<Rightarrow>
                if rel_path = [] then (None, t)
                else (let target_path = posix_join (target_dir u) rel_path
                      in case makedirs t (posix_dirname target_path) of
                           (Some err, t1) \<Rightarrow> (Some (OSError err), t1)
                         | (None, t1) \<Rightarrow>
                             (case open_wb t1 target_path of
                                Inl err \<Rightarrow> (Some (OSError err), t1)
                              | Inr (loc, t2) \<Rightarrow>
                                  (case contents m of
                                     None \<Rightarrow> (Some BadZipFile, t2)
                                   | Some b \<Rightarrow> (None, t2(loc \<mapsto> File b)))))))"

text \<open>The loop: the members in the order of the listing, until one raises.\<close>

fun extract_members :: "updater \<Rightarrow> member list \<Rightarrow> fs \<Rightarrow> exn option \<times> fs" where
  "extract_members u [] t = (None, t)"
| "extract_members u (m # ms) t =
     (case extract_member u m t of
        (Some x, t1) \<Rightarrow> (Some x, t1)
      | (None, t1) \<Rightarrow> extract_members u ms t1)"

text \<open>The \<open>try\<close> block of \<open>do_update\<close>.\<close>

definition download_and_extract :: "updater \<Rightarrow> 'o env \<Rightarrow> 'o world \<Rightarrow> exn option \<times> 'o world" where
  "download_and_extract u e w =
     (case zip_response e of
        RequestFailed \<Rightarrow> (Some RequestException, w)
      | Response st body \<Rightarrow>
          (case raise_for_status st of
             Some x \<Rightarrow> (Some x, w)
           | None \<Rightarrow>
               (case body of
                  None \<Rightarrow> (Some BadZipFile, w)
                | Some z \<Rightarrow>
                    (case py_index (map filename z) 0 of
                       Inl x \<Rightarrow> (Some x, w)
                     | Inr first \<Rightarrow>
                         (case py_index (split_slash first) 0 of
                            Inl x \<Rightarrow> (Some x, w)
                          | Inr root_folder \<Rightarrow>
                              (let w1 = say (Info_extracting root_folder) w;
                                   (r, t) = extract_members u z (files w1)
                               in (r, w1\<lparr>files := t\<rparr>)))))))"

definition do_update :: "updater \<Rightarrow> 'o env \<Rightarrow> 'o world \<Rightarrow> bool \<times> 'o world" where
  "do_update u e w =
     (case download_and_extract u e (say Info_downloading w) of
        (None, w1) \<Rightarrow> (True, say Info_update_complete (say Info_files_updated w1))
      | (Some x, w1) \<Rightarrow> (False, say (Error_critical_update x) w1))"

section \<open>Entry points\<close>

text \<open>How a run of the process ends.\<close>

datatype outcome = Returned | Exited | Replaced | Raised exn

definition restart_program :: "'o env \<Rightarrow> 'o world \<Rightarrow> outcome \<times> 'o world" where
  "restart_program e w =
     (case execv_error e of
        None \<Rightarrow> (Replaced, say Print_restarting w)
      | Some err \<Rightarrow> (Raised (OSError err), say Print_restarting w))"

definition update_now :: "updater \<Rightarrow> 'o env \<Rightarrow> 'o world \<Rightarrow> outcome \<times> 'o world" where
  "update_now u e w =
     (case check_for_updates u e w of
        (Inl x, w1) \<Rightarrow> (Raised x, w1)
      | (Inr (available, l, r), w1) \<Rightarrow>
          if available then (Returned, snd (do_update u e w1)) else (Returned, w1))"

record cli_args =
  arg_check :: bool
  arg_update :: bool
  arg_force :: bool
  arg_restart :: bool

text \<open>The command line dispatch of \<open>updater.py\<close>.\<close>

definition updater_cli :: "cli_args \<Rightarrow> updater \<Rightarrow> 'o env \<Rightarrow> 'o world \<Rightarrow> outcome \<times> 'o world" where
  "updater_cli args u e w =
     (if arg_force args then
        (let w1 = say Info_forcing w;
             (ok, w2) = do_update u e w1
         in restart_program e w2)
      else if arg_update args then
        (case check_for_updates u e w of
           (Inl x, w1) \<Rightarrow> (Raised x, w1)
         | (Inr (available, l, r), w1) \<Rightarrow>
             if available then
               (let (ok, w2) = do_update u e w1 in restart_program e w2)
             else (Returned, w1))
      else
        (case check_for_updates u e w of
           (Inl x, w1) \<Rightarrow> (Raised x, w1)
         | (Inr res, w1) \<Rightarrow> (Returned, w1)))"

text \<open>\<open>main()\<close> of \<open>main.py\<close>, the host application.\<close>

definition app_main :: "updater \<Rightarrow> 'o env \<Rightarrow> 'o world \<Rightarrow> outcome \<times> 'o world" where
  "app_main u e w =
     (case check_for_updates u e (say Print_initializing w) of
        (Inl x, w1) \<Rightarrow> (Raised x, w1)
      | (Inr (update_available, local_v, remote_v), w1) \<Rightarrow>
          (let running = (\<lambda>w'. (Returned, say (Print_running local_v) w'))
           in if update_available then
                (let w2 = say (Print_new_version remote_v) w1
                 in case stdin_line e of
                      None \<Rightarrow> (Raised EOFError, w2)
                    | Some user_choice \<Rightarrow>
                        if user_choice = ''y'' \<or> user_choice = ''Y'' then
                          (let (success, w3) = do_update u e w2
                           in if success then (Exited, say Print_update_finished w3)
                              else running w3)
                        else running w2)
              else running w1))"

section \<open>Well-formed archives and targets\<close>








section \<open>Example worlds\<close>

text \<open>
  Concrete inputs on which the theorems below are run. The application is installed in
  \<open>/app\<close>; the only other JSON value is one with which nothing compares.
\<close>

definition ex_ops :: "unit pyops" where
  "ex_ops = \<lparr>other_truthy = (\<lambda>v. True), other_eq = (\<lambda>a b. True), other_gt = (\<lambda>a b. None)\<rparr>"

definition ex_json_load :: "bytes \<Rightarrow> unit json option" where
  "ex_json_load b =
     (if b = ''{version: 1.0.0}'' then Some (JDict [''version'' \<mapsto> PStr ''1.0.0''])
      else if b = ''{version: 1.9.0}'' then Some (JDict [''version'' \<mapsto> PStr ''1.9.0''])
      else if b = ''{version: 1.0.1}'' then Some (JDict [''version'' \<mapsto> PStr ''1.0.1''])
      else if b = ''{}'' then Some (JDict Map.empty)
      else if b = ''[]'' then Some JNotDict
      else None)"

definition ex_env :: "unit json response \<Rightarrow> member list response \<Rightarrow> unit env" where
  "ex_env v z =
     \<lparr>py = ex_ops, json_load = ex_json_load, version_response = v, zip_response = z,
      execv_error = None, stdin_line = Some ''y''\<rparr>"

definition ex_manifest :: "string \<Rightarrow> unit json response" where
  "ex_manifest ver = Response 200 (Some (JDict [''version'' \<mapsto> PStr ver, ''url'' \<mapsto> PStr ''x'']))"

definition ex_updater :: updater where
  "ex_updater = AutoUpdater ''/app''"

definition ex_world :: "bytes \<Rightarrow> unit world" where
  "ex_world record_bytes =
     \<lparr>files = [[''app''] \<mapsto> Dir, [''app'', ''version.json''] \<mapsto> File record_bytes], log = []\<rparr>"

definition ex_fresh_world :: "unit world" where
  "ex_fresh_world = \<lparr>files = [[''app''] \<mapsto> Dir], log = []\<rparr>"

definition ex_member :: "string \<Rightarrow> bytes \<Rightarrow> member" where
  "ex_member name b = \<lparr>filename = name, contents = Some b\<rparr>"

text \<open>An archive as GitHub builds it, with the version record of the new version.\<close>

definition ex_archive :: "member list" where
  "ex_archive =
     [ex_member ''Repo-main/'' [],
      ex_member ''Repo-main/main.py'' ''import updater'',
      ex_member ''Repo-main/src/'' [],
      ex_member ''Repo-main/src/util.py'' ''def f(): pass'',
      ex_member ''Repo-main/version.json'' ''{version: 1.0.1}'']"

text \<open>An archive without a version record.\<close>

definition ex_archive_no_record :: "member list" where
  "ex_archive_no_record =
     [ex_member ''Repo-main/'' [],
      ex_member ''Repo-main/main.py'' ''import updater'']"

text \<open>An archive whose second file is under another root than the first.\<close>

definition ex_archive_mixed :: "member list" where
  "ex_archive_mixed =
     [ex_member ''Repo-main/a.txt'' ''A'',
      ex_member ''Other/b.txt'' ''B'']"

text \<open>An archive whose second file has no directory part at all.\<close>

definition ex_archive_bare :: "member list" where
  "ex_archive_bare =
     [ex_member ''Repo-main/a.txt'' ''A'',
      ex_member ''README'' ''R'',
      ex_member ''Repo-main/b.txt'' ''B'']"

definition ex_force :: cli_args where
  "ex_force = \<lparr>arg_check = False, arg_update = False, arg_force = True, arg_restart = False\<rparr>"

definition ex_update :: cli_args where
  "ex_update = \<lparr>arg_check = False, arg_update = True, arg_force = False, arg_restart = False\<rparr>"

lemmas ex_defs =
  ex_ops_def ex_json_load_def ex_env_def ex_manifest_def ex_updater_def ex_world_def
  ex_fresh_world_def AutoUpdater_def ex_member_def ex_archive_def ex_archive_no_record_def
  ex_archive_mixed_def ex_archive_bare_def ex_force_def ex_update_def

lemmas path_defs =
  posix_join_def posix_dirname_def rstrip_slash_def lookup_def os_path_exists_def
  os_path_isdir_def read_file_def open_wb_def makedirs_def

lemmas update_defs =
  do_update_def download_and_extract_def extract_member_def py_index_def split_slash1_def
  is_dir_def endswith_slash_def raise_for_status_def say_def

lemmas check_defs =
  check_for_updates_def get_local_version_def read_local_version_def get_remote_version_def
  fetch_remote_version_def raise_for_status_def json_get_def say_def

section \<open>Strings, paths and the file tree\<close>


lemma split_slash_not_Nil [simp]: "split_slash s \<noteq> []"
  by (induction s) (auto split: list.splits)

lemma split_slash_append:
  "split_slash (a @ CHR ''/'' # b) = split_slash a @ split_slash b"
proof (induction a)
  case Nil
  show ?case by simp
next
  case (Cons c a)
  obtain x xs where "split_slash a = x # xs"
    by (cases "split_slash a") auto
  with Cons show ?case by simp
qed

lemma split_slash_no_slash: "CHR ''/'' \<notin> set s \<Longrightarrow> split_slash s = [s]"
  by (induction s) auto

lemma split_slash_snoc_slash: "split_slash (a @ ''/'') = split_slash a @ [[]]"
  using split_slash_append [of a "[]"] by simp

lemma split_slash1_cases:
  obtains (none) "CHR ''/'' \<notin> set s" "split_slash1 s = [s]"
  | (some) a r where "s = a @ CHR ''/'' # r" "CHR ''/'' \<notin> set a" "split_slash1 s = [a, r]"
proof (cases "CHR ''/'' \<in> set s")
  case False
  then show ?thesis using none by (simp add: split_slash1_def)
next
  case True
  let ?a = "takeWhile (\<lambda>c. c \<noteq> CHR ''/'') s"
  let ?d = "dropWhile (\<lambda>c. c \<noteq> CHR ''/'') s"
  have d: "?d \<noteq> []" using True by (simp add: dropWhile_eq_Nil_conv) 
  then have "hd ?d = CHR ''/''" using hd_dropWhile [of "\<lambda>c. c \<noteq> CHR ''/''" s] by simp
  with d have "?d = CHR ''/'' # tl ?d" by (cases ?d) auto
  then have "s = ?a @ CHR ''/'' # tl ?d"
    using takeWhile_dropWhile_id [of "\<lambda>c. c \<noteq> CHR ''/''" s] by simp
  moreover have "CHR ''/'' \<notin> set ?a" by (auto dest: set_takeWhileD)
  moreover have "split_slash1 s = [?a, tl ?d]" using True by (simp add: split_slash1_def)
  ultimately show ?thesis using some by blast
qed


lemma dropWhile_to_slash:
  "CHR ''/'' \<notin> set a \<Longrightarrow> dropWhile (\<lambda>c. c \<noteq> CHR ''/'') (a @ CHR ''/'' # r) = CHR ''/'' # r"
  by (induction a) auto


text \<open>The last \<open>/\<close> of a string.\<close>

lemma last_slash_cases:
  obtains (none) "CHR ''/'' \<notin> set p"
  | (some) h b where "p = h @ CHR ''/'' # b" "CHR ''/'' \<notin> set b"
  using split_list_last [of "CHR ''/''" p] by blast

lemma dirname_head:
  assumes "CHR ''/'' \<notin> set b"
  shows "rev (dropWhile (\<lambda>c. c \<noteq> CHR ''/'') (rev (h @ CHR ''/'' # b))) = h @ ''/''"
proof -
  have "dropWhile (\<lambda>c. c \<noteq> CHR ''/'') (rev b @ CHR ''/'' # rev h) = CHR ''/'' # rev h"
    using assms by (simp add: dropWhile_to_slash)
  then show ?thesis by simp
qed

lemma dirname_no_slash:
  assumes "CHR ''/'' \<notin> set p"
  shows "posix_dirname p = []"
proof -
  have "dropWhile (\<lambda>c. c \<noteq> CHR ''/'') (rev p) = []"
    using assms by (auto simp: dropWhile_eq_Nil_conv)
  then show ?thesis by (simp add: posix_dirname_def)
qed


lemma names_append [simp]: "names (xs @ ys) = names xs @ names ys"
  by (simp add: names_def)

lemma names_simps [simp]: "names [] = []" "names ([] # cs) = names cs"
  by (simp_all add: names_def)

lemma rstrip_slash_snoc:
  "rstrip_slash (s @ [c]) = (if c = CHR ''/'' then rstrip_slash s else s @ [c])"
  by (simp add: rstrip_slash_def)

lemma names_rstrip: "names (split_slash (rstrip_slash s)) = names (split_slash s)"
proof (induction s rule: rev_induct)
  case Nil
  show ?case by (simp add: rstrip_slash_def)
next
  case (snoc c s)
  then show ?case
    using split_slash_snoc_slash [of s] by (simp add: rstrip_slash_snoc)
qed

lemma set_split_rstrip: "set (split_slash (rstrip_slash s)) \<subseteq> insert [] (set (split_slash s))"
proof (induction s rule: rev_induct)
  case Nil
  show ?case by (simp add: rstrip_slash_def)
next
  case (snoc c s)
  then show ?case
    using split_slash_snoc_slash [of s] by (auto simp: rstrip_slash_snoc)
qed

lemma all_slash_iff: "s = replicate (length s) c \<longleftrightarrow> set s \<subseteq> {c}"
  by (induction s) auto

lemma rstrip_slash_Nil: "rstrip_slash s = [] \<longleftrightarrow> set s \<subseteq> {CHR ''/''}"
  by (induction s rule: rev_induct) (simp_all add: rstrip_slash_def)

lemma dirname_eq:
  assumes "CHR ''/'' \<notin> set b"
  shows "posix_dirname (h @ CHR ''/'' # b) = h @ ''/''
    \<or> (posix_dirname (h @ CHR ''/'' # b) = rstrip_slash h \<and> rstrip_slash h \<noteq> [])"
proof (cases "set h \<subseteq> {CHR ''/''}")
  case True
  then have "set (h @ ''/'') \<subseteq> {CHR ''/''}" by simp
  then have "h @ ''/'' = replicate (length (h @ ''/'')) (CHR ''/'')"
    by (simp only: all_slash_iff)
  then have "posix_dirname (h @ CHR ''/'' # b) = h @ ''/''"
    unfolding posix_dirname_def Let_def dirname_head [OF assms] by (simp only: simp_thms if_False)
  then show ?thesis by blast
next
  case False
  then have "\<not> set (h @ ''/'') \<subseteq> {CHR ''/''}" by simp
  then have "h @ ''/'' \<noteq> replicate (length (h @ ''/'')) (CHR ''/'')"
    by (simp only: all_slash_iff not_False_eq_True)
  then have "posix_dirname (h @ CHR ''/'' # b) = rstrip_slash (h @ ''/'')"
    unfolding posix_dirname_def Let_def dirname_head [OF assms] by simp
  then have "posix_dirname (h @ CHR ''/'' # b) = rstrip_slash h"
    using rstrip_slash_snoc [of h "CHR ''/''"] by simp
  with False show ?thesis by (simp add: rstrip_slash_Nil)
qed

lemma dirname_split:
  assumes "CHR ''/'' \<notin> set b"
  shows "names (split_slash (posix_dirname (h @ CHR ''/'' # b))) = names (split_slash h)"
    and "set (split_slash (posix_dirname (h @ CHR ''/'' # b))) \<subseteq> insert [] (set (split_slash h))"
    and "split_slash (h @ CHR ''/'' # b) = split_slash h @ [b]"
    and "posix_dirname (h @ CHR ''/'' # b) \<noteq> []"
proof -
  show "names (split_slash (posix_dirname (h @ CHR ''/'' # b))) = names (split_slash h)"
    using names_rstrip [of h] split_slash_snoc_slash [of h] dirname_eq [OF assms, of h]
    by auto
  show "set (split_slash (posix_dirname (h @ CHR ''/'' # b))) \<subseteq> insert [] (set (split_slash h))"
    using set_split_rstrip [of h] split_slash_snoc_slash [of h] dirname_eq [OF assms, of h]
    by auto
  show "split_slash (h @ CHR ''/'' # b) = split_slash h @ [b]"
    using assms by (simp add: split_slash_append split_slash_no_slash)
  show "posix_dirname (h @ CHR ''/'' # b) \<noteq> []"
    using dirname_eq [OF assms, of h] by auto
qed



lemma clean_Cons [simp]: "clean (c # cs) \<longleftrightarrow> c \<noteq> [] \<and> c \<noteq> ''.'' \<and> c \<noteq> ''..'' \<and> clean cs"
  by (auto simp: clean_def)

lemma clean_Nil [simp]: "clean []"
  by (simp add: clean_def)

lemma clean_append [simp]: "clean (xs @ ys) \<longleftrightarrow> clean xs \<and> clean ys"
  by (auto simp: clean_def)


subsection \<open>walk\<close>


lemma walk_append:
  "walk t cur (xs @ ys) = (case walk t cur xs of Inl e \<Rightarrow> Inl e | Inr c \<Rightarrow> walk t c ys)"
  by (induction xs arbitrary: cur) (auto split: option.splits node.splits)

lemma walk_mono:
  assumes "\<And>q. t q = Some Dir \<Longrightarrow> t' q = Some Dir"
    and "walk t cur cs = Inr loc"
  shows "walk t' cur cs = Inr loc"
  using assms(2)
proof (induction cs arbitrary: cur)
  case Nil
  then show ?case by simp
next
  case (Cons c cs)
  then show ?case
    using assms(1) by (auto split: option.splits node.splits if_splits)
qed

lemma walk_clean:
  assumes "clean cs"
    and "\<And>k. 0 < k \<Longrightarrow> k \<le> length cs \<Longrightarrow> t (cur @ take k cs) = Some Dir"
  shows "walk t cur cs = Inr (cur @ cs)"
  using assms
proof (induction cs arbitrary: cur)
  case Nil
  then show ?case by simp
next
  case (Cons c cs)
  have "t (cur @ [c]) = Some Dir" using Cons.prems(2) [of 1] by simp
  moreover have "walk t (cur @ [c]) cs = Inr ((cur @ [c]) @ cs)"
  proof (rule Cons.IH)
    show "clean cs" using Cons.prems(1) by simp
    fix k assume "0 < k" "k \<le> length cs"
    then show "t ((cur @ [c]) @ take k cs) = Some Dir"
      using Cons.prems(2) [of "Suc k"] by simp
  qed
  ultimately show ?case using Cons.prems(1) by simp
qed

subsection \<open>mkdir_p\<close>


lemma mkdir_p_preserves:
  "t q = Some n \<Longrightarrow> snd (mkdir_p t cur cs) q = Some n"
proof (induction cs arbitrary: t cur)
  case Nil
  then show ?case by simp
next
  case (Cons c cs)
  note ih = Cons.IH [of t cur] Cons.IH [of t "butlast cur"] Cons.IH [of t "cur @ [c]"]
  show ?case
  proof (cases "t (cur @ [c])")
    case None
    then have "q \<noteq> cur @ [c]" using Cons.prems by auto
    then have "(t(cur @ [c] \<mapsto> Dir)) q = Some n" using Cons.prems by simp
    then have "snd (mkdir_p (t(cur @ [c] \<mapsto> Dir)) (cur @ [c]) cs) q = Some n"
      using Cons.IH [of "t(cur @ [c] \<mapsto> Dir)" "cur @ [c]"] by blast
    then show ?thesis using None ih Cons.prems by simp
  next
    case (Some a)
    then show ?thesis using ih Cons.prems by (cases a) simp_all
  qed
qed

lemma mkdir_p_changes:
  "snd (mkdir_p t cur cs) q \<noteq> t q \<Longrightarrow>
     t q = None \<and> snd (mkdir_p t cur cs) q = Some Dir \<and> q \<noteq> [] \<and> last q \<in> set cs"
proof (induction cs arbitrary: t cur)
  case Nil
  then show ?case by simp
next
  case (Cons c cs)
  show ?case
  proof (cases "c = [] \<or> c = ''.'' \<or> c = ''..''")
    case True
    then show ?thesis using Cons.prems Cons.IH [of t cur] Cons.IH [of t "butlast cur"] by auto
  next
    case False
    show ?thesis
    proof (cases "t (cur @ [c])")
      case None
      let ?t1 = "t(cur @ [c] \<mapsto> Dir)"
      have r: "snd (mkdir_p t cur (c # cs)) = snd (mkdir_p ?t1 (cur @ [c]) cs)"
        using False None by simp
      show ?thesis
      proof (cases "q = cur @ [c]")
        case True
        have "?t1 q = Some Dir" using True by simp
        then have "snd (mkdir_p ?t1 (cur @ [c]) cs) q = Some Dir"
          by (rule mkdir_p_preserves)
        then show ?thesis using True None r by simp
      next
        case neq: False
        then have "snd (mkdir_p ?t1 (cur @ [c]) cs) q \<noteq> ?t1 q"
          using Cons.prems r by simp
        then have "?t1 q = None \<and> snd (mkdir_p ?t1 (cur @ [c]) cs) q = Some Dir
          \<and> q \<noteq> [] \<and> last q \<in> set cs"
          using Cons.IH [of "?t1" "cur @ [c]"] by blast
        then show ?thesis using neq r by simp
      qed
    next
      case (Some a)
      then show ?thesis
        using False Cons.prems Cons.IH [of t "cur @ [c]"] by (cases a) auto
    qed
  qed
qed

lemma mkdir_p_walk:
  "fst (mkdir_p t cur cs) = None \<Longrightarrow> \<exists>loc. walk (snd (mkdir_p t cur cs)) cur cs = Inr loc"
proof (induction cs arbitrary: t cur)
  case Nil
  then show ?case by simp
next
  case (Cons c cs)
  show ?case
  proof (cases "c = [] \<or> c = ''.'' \<or> c = ''..''")
    case True
    then show ?thesis using Cons.prems Cons.IH [of t cur] Cons.IH [of t "butlast cur"] by auto
  next
    case False
    show ?thesis
    proof (cases "t (cur @ [c])")
      case None
      let ?t1 = "t(cur @ [c] \<mapsto> Dir)"
      have r: "mkdir_p t cur (c # cs) = mkdir_p ?t1 (cur @ [c]) cs"
        using False None by simp
      have "?t1 (cur @ [c]) = Some Dir" by simp
      then have "snd (mkdir_p ?t1 (cur @ [c]) cs) (cur @ [c]) = Some Dir"
        by (rule mkdir_p_preserves)
      moreover have "fst (mkdir_p ?t1 (cur @ [c]) cs) = None"
        using Cons.prems unfolding r .
      then have "\<exists>loc. walk (snd (mkdir_p ?t1 (cur @ [c]) cs)) (cur @ [c]) cs = Inr loc"
        using Cons.IH [of ?t1 "cur @ [c]"] by blast
      ultimately show ?thesis using False unfolding r by auto
    next
      case (Some a)
      show ?thesis
      proof (cases a)
        case Dir
        have r: "mkdir_p t cur (c # cs) = mkdir_p t (cur @ [c]) cs"
          using False Some Dir by simp
        have "t (cur @ [c]) = Some Dir" using Some Dir by simp
        then have "snd (mkdir_p t (cur @ [c]) cs) (cur @ [c]) = Some Dir"
          by (rule mkdir_p_preserves)
        moreover have "fst (mkdir_p t (cur @ [c]) cs) = None"
          using Cons.prems unfolding r .
        then have "\<exists>loc. walk (snd (mkdir_p t (cur @ [c]) cs)) (cur @ [c]) cs = Inr loc"
          using Cons.IH [of t "cur @ [c]"] by blast
        ultimately show ?thesis using False unfolding r by auto
      next
        case (File b)
        then show ?thesis using False Some Cons.prems by simp
      qed
    qed
  qed
qed


subsection \<open>join, lookup, open\<close>

lemma snoc_slash:
  assumes "s \<noteq> []" and "last s = CHR ''/''"
  obtains s' where "s = s' @ ''/''"
  using assms append_butlast_last_id [of s] by metis





lemma set_split_join:
  "set (split_slash (posix_join a b)) \<subseteq> set (split_slash a) \<union> set (split_slash b)"
proof -
  consider (abs) "b \<noteq> [] \<and> hd b = CHR ''/''" | (empty) "a = []"
    | (slash) "a \<noteq> []" "last a = CHR ''/''" "\<not> (b \<noteq> [] \<and> hd b = CHR ''/'')"
    | (plain) "a \<noteq> []" "last a \<noteq> CHR ''/''" "\<not> (b \<noteq> [] \<and> hd b = CHR ''/'')"
    by blast
  then show ?thesis
  proof cases
    case abs
    then show ?thesis by (simp add: posix_join_def)
  next
    case empty
    then show ?thesis by (auto simp: posix_join_def)
  next
    case slash
    then obtain a' where a: "a = a' @ ''/''" using snoc_slash by blast
    have "posix_join a b = a' @ CHR ''/'' # b"
      using slash(3) by (simp add: posix_join_def a)
    then show ?thesis by (auto simp: a split_slash_append split_slash_snoc_slash)
  next
    case plain
    then have "posix_join a b = a @ CHR ''/'' # b" by (simp add: posix_join_def)
    then show ?thesis by (auto simp: split_slash_append)
  qed
qed

text \<open>The components of the file name after the first are those of the relative path.\<close>

lemma set_split_rel:
  assumes "CHR ''/'' \<notin> set a"
  shows "split_slash (a @ CHR ''/'' # rel) = a # split_slash rel"
  using assms by (simp add: split_slash_append split_slash_no_slash)

lemma walk_single:
  "walk t d [c] =
     (if c = [] \<or> c = ''.'' then Inr d
      else if c = ''..'' then Inr (butlast d)
      else (case t (d @ [c]) of
              None \<Rightarrow> Inl ENOENT
            | Some (File b) \<Rightarrow> Inl ENOTDIR
            | Some Dir \<Rightarrow> Inr (d @ [c])))"
  by (simp split: option.split node.split)

lemma lookup_Inr:
  assumes "lookup t p = Inr (loc, n)"
  shows "p \<noteq> [] \<and> (\<exists>d. walk t [] (butlast (split_slash p)) = Inr d
    \<and> (n = Some Dir \<or> (loc = d @ [last (split_slash p)] \<and> n = t loc
          \<and> last (split_slash p) \<noteq> [] \<and> last (split_slash p) \<noteq> ''.''
          \<and> last (split_slash p) \<noteq> ''..'')))"
proof -
  have p: "p \<noteq> []" using assms by (auto simp: lookup_def)
  obtain d where d: "walk t [] (butlast (split_slash p)) = Inr d"
    using assms p by (cases "walk t [] (butlast (split_slash p))") (simp_all add: lookup_def)
  show ?thesis
    using assms p d by (auto simp: lookup_def Let_def split: if_splits)
qed

lemma open_wb_Inr:
  assumes "open_wb t p = Inr (loc, t2)"
  shows "p \<noteq> [] \<and> (\<exists>d. walk t [] (butlast (split_slash p)) = Inr d
    \<and> loc = d @ [last (split_slash p)]) \<and> t loc \<noteq> Some Dir \<and> t2 = t(loc \<mapsto> File [])
    \<and> last (split_slash p) \<noteq> [] \<and> last (split_slash p) \<noteq> ''.''
    \<and> last (split_slash p) \<noteq> ''..''"
proof -
  obtain l n where l: "lookup t p = Inr (l, n)"
    using assms by (cases "lookup t p") (auto simp: open_wb_def)
  have n: "n \<noteq> Some Dir" and loc: "l = loc" and t2: "t2 = t(loc \<mapsto> File [])"
    using assms l by (auto simp: open_wb_def split: option.splits node.splits)
  show ?thesis
    using lookup_Inr [OF l] n loc t2 by auto
qed

lemma walk_split_last:
  "walk t [] (split_slash p) =
     (case walk t [] (butlast (split_slash p)) of
        Inl e \<Rightarrow> Inl e
      | Inr d \<Rightarrow> walk t d [last (split_slash p)])"
  using walk_append [of t "[]" "butlast (split_slash p)" "[last (split_slash p)]"] by simp

lemma isdir_iff_walk:
  "os_path_isdir t p \<longleftrightarrow> p \<noteq> [] \<and> (\<exists>loc. walk t [] (split_slash p) = Inr loc)"
proof (cases "p = []")
  case True
  then show ?thesis by (simp add: os_path_isdir_def lookup_def)
next
  case False
  show ?thesis
  proof (cases "walk t [] (butlast (split_slash p))")
    case (Inl e)
    then show ?thesis
      using False by (simp add: os_path_isdir_def lookup_def walk_split_last)
  next
    case (Inr d)
    show ?thesis
    proof (cases "t (d @ [last (split_slash p)])")
      case None
      then show ?thesis
        using False Inr
        by (simp add: os_path_isdir_def lookup_def walk_split_last walk_single Let_def
            del: walk.simps)
    next
      case (Some a)
      then show ?thesis
        using False Inr
        by (cases a)
          (simp_all add: os_path_isdir_def lookup_def walk_split_last walk_single Let_def
            del: walk.simps)
    qed
  qed
qed

section \<open>The version check\<close>

lemma str_gt_iff_less: "str_gt a b \<longleftrightarrow> b < a"
  by (induction a b rule: str_gt.induct) (auto simp: less_char_def)

lemma get_local_version_files [simp]: "files (snd (get_local_version u e w)) = files w"
  by (simp add: get_local_version_def say_def split: sum.splits)

lemma get_remote_version_files [simp]: "files (snd (get_remote_version u e w)) = files w"
  by (simp add: get_remote_version_def say_def split: sum.splits)

lemma get_remote_version_value: "fst (get_remote_version u e w) = fst (get_remote_version u e w')"
  by (simp add: get_remote_version_def split: sum.splits)

lemma check_for_updates_files: "files (snd (check_for_updates u e w)) = files w"
proof -
  obtain l w1 where l: "get_local_version u e w = (l, w1)" by (cases "get_local_version u e w")
  obtain r w2 where r: "get_remote_version u e w1 = (r, w2)" by (cases "get_remote_version u e w1")
  have "files w1 = files w" using get_local_version_files [of u e w] l by simp
  moreover have "files w2 = files w1" using get_remote_version_files [of u e w1] r by simp
  ultimately show ?thesis
    by (simp add: check_for_updates_def l r say_def Let_def split: sum.splits bool.splits)
qed

lemma check_for_updates_strings:
  assumes "fst (get_local_version u e w) = PStr l"
    and "fst (get_remote_version u e w') = PStr r"
  shows "fst (check_for_updates u e w) = Inr (l < r, PStr l, PStr r)"
proof -
  obtain w1 where l: "get_local_version u e w = (PStr l, w1)"
    using assms(1) by (cases "get_local_version u e w") simp
  have "fst (get_remote_version u e w1) = PStr r"
    using assms(2) get_remote_version_value [of u e w1 w'] by simp
  then obtain w2 where r: "get_remote_version u e w1 = (PStr r, w2)"
    by (cases "get_remote_version u e w1") simp
  have "r \<noteq> [] \<and> r \<noteq> l \<and> str_gt r l \<longleftrightarrow> l < r"
    by (auto simp: str_gt_iff_less)
  then show ?thesis
    by (auto simp: check_for_updates_def l r str_gt_iff_less Let_def split: bool.splits)
qed

lemma check_for_updates_no_remote:
  assumes "fst (get_remote_version u e w') = PNone"
  shows "fst (check_for_updates u e w) = Inr (False, fst (get_local_version u e w), PNone)"
proof -
  obtain l w1 where l: "get_local_version u e w = (l, w1)" by (cases "get_local_version u e w")
  have "fst (get_remote_version u e w1) = PNone"
    using assms get_remote_version_value [of u e w1 w'] by simp
  then obtain w2 where r: "get_remote_version u e w1 = (PNone, w2)"
    by (cases "get_remote_version u e w1") simp
  show ?thesis by (simp add: check_for_updates_def l r Let_def)
qed

text \<open>
  C1. For every pair of version strings, the local one read from the version record and
  the remote one fetched from the manifest, \<open>check_for_updates\<close> reports an update
  exactly when the remote string is strictly greater than the local one in the
  lexicographic order of strings; a string compared with itself never is an update.
\<close>

theorem check_for_updates_lexicographic:
  assumes "fst (get_local_version u e w) = PStr l"
    and "fst (get_remote_version u e w') = PStr r"
  shows "fst (check_for_updates u e w) = Inr ((l, r) \<in> lexord {(a, b). a < b}, PStr l, PStr r)
    \<and> (r = l \<longrightarrow> fst (check_for_updates u e w) = Inr (False, PStr l, PStr r))"
proof -
  have "(l, r) \<in> lexord {(a, b). a < b} \<longleftrightarrow> l < r"
    by (simp add: list_less_def)
  moreover have "\<not> l < l" by simp
  ultimately show ?thesis
    using check_for_updates_strings [OF assms] by auto
qed

theorem check_for_updates_lexicographic_witness:
  "fst (check_for_updates ex_updater (ex_env (ex_manifest ''1.9.1'') RequestFailed)
          (ex_world ''{version: 1.9.0}'')) = Inr (True, PStr ''1.9.0'', PStr ''1.9.1'')
   \<and> fst (check_for_updates ex_updater (ex_env (ex_manifest ''1.10.0'') RequestFailed)
          (ex_world ''{version: 1.9.0}'')) = Inr (False, PStr ''1.9.0'', PStr ''1.10.0'')
   \<and> fst (check_for_updates ex_updater (ex_env (ex_manifest ''1.9.0'') RequestFailed)
          (ex_world ''{version: 1.9.0}'')) = Inr (False, PStr ''1.9.0'', PStr ''1.9.0'')"
proof -
  let ?w = "ex_world ''{version: 1.9.0}''"
  have l: "fst (get_local_version ex_updater (ex_env v RequestFailed) ?w) = PStr ''1.9.0''" for v
    by (simp add: ex_defs check_defs path_defs)
  have r: "fst (get_remote_version ex_updater (ex_env (ex_manifest x) RequestFailed) ?w) = PStr x"
    for x by (simp add: ex_defs check_defs)
  have "(''1.9.0'', ''1.9.1'') \<in> lexord {(a, b). a < b}"
    and "(''1.9.0'', ''1.10.0'') \<notin> lexord {(a, b). a < b}"
    by (simp_all add: less_char_def)
  then show ?thesis
    using check_for_updates_lexicographic [OF l r, of "''1.9.1''"]
      check_for_updates_lexicographic [OF l r, of "''1.10.0''"]
      check_for_updates_lexicographic [OF l r, of "''1.9.0''"]
    by simp
qed

text \<open>
  C8. When the local version record is absent, reading the local version is no error: the
  result is the lowest version \<open>"0.0.0"\<close> (and a warning is logged).
\<close>

theorem get_local_version_absent:
  assumes "\<not> os_path_exists (files w) (local_version_file u)"
  shows "get_local_version u e w = (PStr ''0.0.0'', say Warn_local_version_not_found w)"
  using assms by (simp add: get_local_version_def)

theorem get_local_version_absent_witness:
  "\<not> os_path_exists (files ex_fresh_world) (local_version_file ex_updater)
   \<and> fst (get_local_version ex_updater (ex_env RequestFailed RequestFailed) ex_fresh_world)
       = PStr ''0.0.0''"
proof -
  have a: "\<not> os_path_exists (files ex_fresh_world) (local_version_file ex_updater)"
    by (simp add: ex_defs path_defs)
  show ?thesis
    using a get_local_version_absent [OF a, of "ex_env RequestFailed RequestFailed"] by simp
qed

lemma get_remote_version_failure:
  assumes "version_response e = RequestFailed
    \<or> (\<exists>st body. version_response e = Response st body \<and> 400 \<le> st \<and> st < 600)"
  shows "\<exists>x. get_remote_version u e w = (PNone, say (Error_failed_to_check_remote x) w)"
  using assms
  by (auto simp: get_remote_version_def fetch_remote_version_def raise_for_status_def)

lemma app_main_no_update:
  assumes "fst (check_for_updates u e (say Print_initializing w)) = Inr (False, l, r)"
  shows "fst (app_main u e w) = Returned"
  using assms
  by (cases "check_for_updates u e (say Print_initializing w)") (simp add: app_main_def)

text \<open>
  C7. Whenever the request to the remote endpoint fails (the request raises: no connection,
  timeout; or the status is an error status, 4xx or 5xx, such as 500),
  \<open>check_for_updates\<close> does not raise: it returns \<open>(False, local_ver, None)\<close>, and the
  host application \<open>main()\<close> runs on to its end.
\<close>

theorem check_for_updates_remote_failure:
  assumes "version_response e = RequestFailed
    \<or> (\<exists>st body. version_response e = Response st body \<and> 400 \<le> st \<and> st < 600)"
  shows "fst (check_for_updates u e w) = Inr (False, fst (get_local_version u e w), PNone)
    \<and> fst (app_main u e w) = Returned"
proof -
  obtain x where "get_remote_version u e w = (PNone, say (Error_failed_to_check_remote x) w)"
    using get_remote_version_failure [OF assms] by blast
  then have r: "fst (get_remote_version u e w) = PNone" by simp
  have c: "fst (check_for_updates u e w') = Inr (False, fst (get_local_version u e w'), PNone)"
    for w' using check_for_updates_no_remote [OF r] .
  show ?thesis using c [of w] app_main_no_update [OF c] by simp
qed

theorem check_for_updates_remote_failure_witness:
  "fst (check_for_updates ex_updater (ex_env (Response 500 None) RequestFailed)
          (ex_world ''{version: 1.0.0}'')) = Inr (False, PStr ''1.0.0'', PNone)
   \<and> fst (app_main ex_updater (ex_env (Response 500 None) RequestFailed)
          (ex_world ''{version: 1.0.0}'')) = Returned"
proof -
  let ?e = "ex_env (Response 500 None) RequestFailed"
  have a: "version_response ?e = RequestFailed
    \<or> (\<exists>st body. version_response ?e = Response st body \<and> 400 \<le> st \<and> st < 600)"
    by (simp add: ex_defs)
  have l: "fst (get_local_version ex_updater ?e (ex_world ''{version: 1.0.0}'')) = PStr ''1.0.0''"
    by (simp add: ex_defs check_defs path_defs)
  show ?thesis
    using check_for_updates_remote_failure [OF a, of ex_updater "ex_world ''{version: 1.0.0}''"] l
    by simp
qed

lemma get_local_version_unusable:
  assumes "os_path_exists (files w) (local_version_file u)"
    and "(\<exists>err. read_file (files w) (local_version_file u) = Inl err)
      \<or> (\<exists>b. read_file (files w) (local_version_file u) = Inr b
            \<and> (json_load e b = None \<or> json_load e b = Some JNotDict
                \<or> (\<exists>m. json_load e b = Some (JDict m) \<and> m ''version'' = None)))"
  shows "fst (get_local_version u e w) = PStr ''0.0.0''"
  using assms
  by (auto simp: get_local_version_def read_local_version_def json_get_def split: sum.splits)

text \<open>
  C10. When the local version record exists but cannot be read, or is not valid JSON, or is
  valid JSON without the key \<open>version\<close> (a dict without it, or no dict at all),
  \<open>get_local_version\<close> returns \<open>"0.0.0"\<close> instead of failing; \<open>check_for_updates\<close>
  goes on with that version and reports an update for every remote version string
  greater than \<open>"0.0.0"\<close>.
\<close>

theorem get_local_version_unusable_record:
  assumes "os_path_exists (files w) (local_version_file u)"
    and "(\<exists>err. read_file (files w) (local_version_file u) = Inl err)
      \<or> (\<exists>b. read_file (files w) (local_version_file u) = Inr b
            \<and> (json_load e b = None \<or> json_load e b = Some JNotDict
                \<or> (\<exists>m. json_load e b = Some (JDict m) \<and> m ''version'' = None)))"
  shows "fst (get_local_version u e w) = PStr ''0.0.0''
    \<and> (\<forall>r. fst (get_remote_version u e w) = PStr r \<longrightarrow>
          fst (check_for_updates u e w) = Inr (''0.0.0'' < r, PStr ''0.0.0'', PStr r))"
  using get_local_version_unusable [OF assms] check_for_updates_strings [of u e w "''0.0.0''" w]
  by simp

theorem get_local_version_unusable_record_witness:
  "fst (get_local_version ex_updater (ex_env (ex_manifest ''1.0.1'') RequestFailed)
          (ex_world ''{}'')) = PStr ''0.0.0''
   \<and> fst (check_for_updates ex_updater (ex_env (ex_manifest ''1.0.1'') RequestFailed)
          (ex_world ''{}'')) = Inr (True, PStr ''0.0.0'', PStr ''1.0.1'')
   \<and> fst (get_local_version ex_updater (ex_env (ex_manifest ''1.0.1'') RequestFailed)
          (ex_world ''not json'')) = PStr ''0.0.0''
   \<and> fst (get_local_version ex_updater (ex_env (ex_manifest ''1.0.1'') RequestFailed)
          (ex_world ''[]'')) = PStr ''0.0.0''"
proof -
  let ?e = "ex_env (ex_manifest ''1.0.1'') RequestFailed"
  have x: "os_path_exists (files (ex_world b)) (local_version_file ex_updater)" for b
    by (simp add: ex_defs path_defs)
  have f: "read_file (files (ex_world b)) (local_version_file ex_updater) = Inr b" for b
    by (simp add: ex_defs path_defs)
  have j: "json_load ?e ''{}'' = Some (JDict Map.empty)" "json_load ?e ''not json'' = None"
    "json_load ?e ''[]'' = Some JNotDict"
    by (simp_all add: ex_defs)
  have r: "fst (get_remote_version ex_updater ?e (ex_world ''{}'')) = PStr ''1.0.1''"
    by (simp add: ex_defs check_defs)
  have lt: "''0.0.0'' < ''1.0.1''" by (simp add: less_char_def)
  show ?thesis
    using get_local_version_unusable_record [OF x, of "''{}''" ?e]
      get_local_version_unusable_record [OF x, of "''not json''" ?e]
      get_local_version_unusable_record [OF x, of "''[]''" ?e] f j r lt
    by simp
qed

text \<open>
  C2, as the specification states it: a remote manifest that is valid structured data
  without the field \<open>version\<close> makes the check fail with a parse error. It does not: here
  the manifest is the empty dict and \<open>check_for_updates\<close> returns normally, with
  \<open>(False, "1.0.0", None)\<close>.
\<close>

theorem check_missing_version_counterexample:
  "fst (check_for_updates ex_updater (ex_env (Response 200 (Some (JDict Map.empty))) RequestFailed)
          (ex_world ''{version: 1.0.0}'')) = Inr (False, PStr ''1.0.0'', PNone)"
  by (simp add: ex_defs check_defs path_defs)

text \<open>
  C2, amended. For every remote manifest that is valid structured data without the field
  \<open>version\<close> (a dict without the key, or no dict at all), \<open>check_for_updates\<close> does not
  fail: it returns \<open>(False, local_ver, None)\<close>, and the files, the local version record
  among them, are unchanged by the call.
\<close>

theorem check_missing_version:
  assumes "version_response e = Response st (Some data)"
    and "data = JNotDict \<or> (\<exists>m. data = JDict m \<and> m ''version'' = None)"
  shows "fst (check_for_updates u e w) = Inr (False, fst (get_local_version u e w), PNone)
    \<and> files (snd (check_for_updates u e w)) = files w"
proof -
  have "fst (get_remote_version u e w) = PNone"
    using assms
    by (auto simp: get_remote_version_def fetch_remote_version_def json_get_def
        split: option.splits sum.splits)
  then show ?thesis
    using check_for_updates_no_remote [of u e w w] check_for_updates_files [of u e w] by simp
qed

theorem check_missing_version_witness:
  "fst (check_for_updates ex_updater (ex_env (Response 200 (Some (JDict Map.empty))) RequestFailed)
          (ex_world ''{version: 1.0.0}'')) = Inr (False, PStr ''1.0.0'', PNone)
   \<and> files (snd (check_for_updates ex_updater
          (ex_env (Response 200 (Some (JDict Map.empty))) RequestFailed)
          (ex_world ''{version: 1.0.0}''))) = files (ex_world ''{version: 1.0.0}'')"
proof -
  let ?e = "ex_env (Response 200 (Some (JDict Map.empty))) RequestFailed"
  have a: "version_response ?e = Response 200 (Some (JDict Map.empty))"
    by (simp add: ex_defs)
  have b: "JDict Map.empty = (JNotDict :: unit json)
    \<or> (\<exists>m. JDict Map.empty = (JDict m :: unit json) \<and> m ''version'' = None)"
    by simp
  have l: "fst (get_local_version ex_updater ?e (ex_world ''{version: 1.0.0}'')) = PStr ''1.0.0''"
    by (simp add: ex_defs check_defs path_defs)
  show ?thesis
    using check_missing_version [OF a b, of ex_updater "ex_world ''{version: 1.0.0}''"] l
    by simp
qed

section \<open>The installation\<close>

lemma files_say [simp]: "files (say l w) = files w"
  by (simp add: say_def)

lemma extract_members_append:
  "extract_members u (xs @ ys) t =
     (case extract_members u xs t of
        (Some x, t1) \<Rightarrow> (Some x, t1)
      | (None, t1) \<Rightarrow> extract_members u ys t1)"
  by (induction xs arbitrary: t) (auto split: prod.splits option.splits)

lemma extract_member_bare:
  assumes "CHR ''/'' \<notin> set (filename m)"
  shows "extract_member u m t = (Some IndexError, t)"
proof -
  have "\<not> is_dir m"
  proof
    assume "is_dir m"
    then have ne: "filename m \<noteq> []" and l: "last (filename m) = CHR ''/''"
      by (simp_all add: is_dir_def endswith_slash_def)
    from ne have "last (filename m) \<in> set (filename m)" by (rule last_in_set)
    then have "CHR ''/'' \<in> set (filename m)" unfolding l .
    with assms show False by blast
  qed
  moreover have "split_slash1 (filename m) = [filename m]"
    using assms by (simp add: split_slash1_def)
  ultimately show ?thesis by (simp add: extract_member_def py_index_def)
qed

lemma extract_members_bare:
  assumes "CHR ''/'' \<notin> set (filename m)"
  shows "fst (extract_members u (pre @ m # post) t) \<noteq> None"
    and "snd (extract_members u (pre @ m # post) t) = snd (extract_members u pre t)"
  using extract_member_bare [OF assms]
  by (auto simp: extract_members_append split: prod.splits option.splits)



lemma download_and_extract_archive:
  assumes "zip_response e = Response st (Some z)" and "raise_for_status st = None"
    and "z \<noteq> []"
  shows "fst (download_and_extract u e w) = fst (extract_members u z (files w))"
    and "files (snd (download_and_extract u e w)) = snd (extract_members u z (files w))"
proof -
  obtain r t where x: "extract_members u z (files w) = (r, t)"
    by (cases "extract_members u z (files w)")
  have i: "py_index (map filename z) 0 = Inr (filename (hd z))"
    using assms(3) by (cases z) (simp_all add: py_index_def)
  have j: "py_index (split_slash (filename (hd z))) 0 = Inr (hd (split_slash (filename (hd z))))"
    by (cases "split_slash (filename (hd z))") (simp_all add: py_index_def)
  have d: "download_and_extract u e w
    = (r, (say (Info_extracting (hd (split_slash (filename (hd z))))) w)\<lparr>files := t\<rparr>)"
    using assms(1,2) x by (simp add: download_and_extract_def i j)
  show "fst (download_and_extract u e w) = fst (extract_members u z (files w))"
    by (simp add: d x)
  show "files (snd (download_and_extract u e w)) = snd (extract_members u z (files w))"
    by (simp add: d x)
qed

lemma download_and_extract_nothing:
  assumes "\<not> (\<exists>st z. zip_response e = Response st (Some z) \<and> raise_for_status st = None
    \<and> z \<noteq> [])"
  shows "files (snd (download_and_extract u e w)) = files w"
proof (cases "zip_response e")
  case RequestFailed
  then show ?thesis by (simp add: download_and_extract_def)
next
  case (Response st body)
  show ?thesis
  proof (cases "raise_for_status st")
    case (Some x)
    then show ?thesis using Response by (simp add: download_and_extract_def)
  next
    case None
    show ?thesis
    proof (cases body)
      case n: None
      then show ?thesis using Response None by (simp add: download_and_extract_def)
    next
      case (Some z)
      then have "z = []" using assms Response None by simp
      then show ?thesis
        using Response None Some by (simp add: download_and_extract_def py_index_def)
    qed
  qed
qed

lemma do_update_result:
  "fst (do_update u e w) = (fst (download_and_extract u e (say Info_downloading w)) = None)"
  "files (snd (do_update u e w)) = files (snd (download_and_extract u e (say Info_downloading w)))"
proof -
  obtain r w1 where d: "download_and_extract u e (say Info_downloading w) = (r, w1)"
    by (cases "download_and_extract u e (say Info_downloading w)")
  show "fst (do_update u e w) = (fst (download_and_extract u e (say Info_downloading w)) = None)"
    by (cases r) (simp_all add: do_update_def d)
  show "files (snd (do_update u e w))
    = files (snd (download_and_extract u e (say Info_downloading w)))"
    by (cases r) (simp_all add: do_update_def d)
qed

lemma do_update_archive:
  assumes "zip_response e = Response st (Some z)" and "raise_for_status st = None"
    and "z \<noteq> []"
  shows "fst (do_update u e w) = (fst (extract_members u z (files w)) = None)"
    and "files (snd (do_update u e w)) = snd (extract_members u z (files w))"
  using download_and_extract_archive [OF assms, of u "say Info_downloading w"]
  by (simp_all add: do_update_result)

lemma do_update_files:
  "files (snd (do_update u e w)) = files w
   \<or> (\<exists>st z. zip_response e = Response st (Some z)
         \<and> files (snd (do_update u e w)) = snd (extract_members u z (files w)))"
proof (cases "\<exists>st z. zip_response e = Response st (Some z) \<and> raise_for_status st = None \<and> z \<noteq> []")
  case True
  then show ?thesis using do_update_archive(2) by blast
next
  case False
  then have "files (snd (do_update u e w)) = files w"
    using download_and_extract_nothing [of e u "say Info_downloading w"]
    by (simp add: do_update_result)
  then show ?thesis by blast
qed




subsection \<open>One member\<close>

lemma file_member_rel:
  assumes "\<not> is_dir m" and "py_index (split_slash1 (filename m)) 1 = Inr rel"
  shows "rel \<noteq> []" and "\<exists>a. filename m = a @ CHR ''/'' # rel \<and> CHR ''/'' \<notin> set a"
proof -
  show s: "\<exists>a. filename m = a @ CHR ''/'' # rel \<and> CHR ''/'' \<notin> set a"
  proof (cases "filename m" rule: split_slash1_cases)
    case none
    then show ?thesis using assms(2) by (simp add: py_index_def)
  next
    case (some a r)
    then show ?thesis using assms(2) by (auto simp: py_index_def)
  qed
  show "rel \<noteq> []"
  proof
    assume "rel = []"
    with s have "endswith_slash (filename m)" by (auto simp: endswith_slash_def)
    with assms(1) show False by (simp add: is_dir_def)
  qed
qed

text \<open>What the loop body leaves behind, in every case.\<close>

lemma extract_member_tree:
  obtains (same) "snd (extract_member u m t) = t"
  | (dirs) rel where "py_index (split_slash1 (filename m)) 1 = Inr rel"
      "snd (extract_member u m t)
         = snd (makedirs t (posix_dirname (posix_join (target_dir u) rel)))"
  | (wrote) rel loc t2 x where "py_index (split_slash1 (filename m)) 1 = Inr rel"
      "open_wb (snd (makedirs t (posix_dirname (posix_join (target_dir u) rel))))
         (posix_join (target_dir u) rel) = Inr (loc, t2)"
      "snd (extract_member u m t)
         = (snd (makedirs t (posix_dirname (posix_join (target_dir u) rel))))(loc \<mapsto> File x)"
proof (cases "is_dir m")
  case True
  then show ?thesis using same by (simp add: extract_member_def)
next
  case nd: False
  show ?thesis
  proof (cases "py_index (split_slash1 (filename m)) 1")
    case (Inl x)
    then show ?thesis using same nd by (simp add: extract_member_def)
  next
    case (Inr rel)
    let ?tp = "posix_join (target_dir u) rel"
    obtain r t1 where mk: "makedirs t (posix_dirname ?tp) = (r, t1)"
      by (cases "makedirs t (posix_dirname ?tp)")
    have rel: "rel \<noteq> []" using file_member_rel(1) [OF nd Inr] .
    show ?thesis
    proof (cases r)
      case (Some err)
      then have "snd (extract_member u m t) = t1"
        using nd Inr rel mk by (simp add: extract_member_def)
      then show ?thesis using dirs [of rel] Inr mk by simp
    next
      case None
      show ?thesis
      proof (cases "open_wb t1 ?tp")
        case (Inl err)
        then have "snd (extract_member u m t) = t1"
          using nd Inr rel mk None by (simp add: extract_member_def)
        then show ?thesis using dirs [of rel] Inr mk by simp
      next
        case o: (Inr p)
        obtain loc t2 where p: "p = (loc, t2)" by (cases p)
        have t2: "t2 = t1(loc \<mapsto> File [])"
          using open_wb_Inr [of t1 ?tp loc t2] o p by simp
        show ?thesis
        proof (cases "contents m")
          case cn: None
          then have "snd (extract_member u m t) = t1(loc \<mapsto> File [])"
            using nd Inr rel mk None o p t2 by (simp add: extract_member_def)
          then show ?thesis using wrote [of rel loc t2 "[]"] Inr mk o p by simp
        next
          case (Some b)
          then have "snd (extract_member u m t) = t1(loc \<mapsto> File b)"
            using nd Inr rel mk None o p t2 by (simp add: extract_member_def)
          then show ?thesis using wrote [of rel loc t2 b] Inr mk o p by simp
        qed
      qed
    qed
  qed
qed

text \<open>What a file member that is extracted without an exception has gone through.\<close>

lemma extract_member_success:
  assumes "\<not> is_dir m" and "extract_member u m t = (None, t')"
  obtains rel b t1 loc where "py_index (split_slash1 (filename m)) 1 = Inr rel"
    "contents m = Some b"
    "makedirs t (posix_dirname (posix_join (target_dir u) rel)) = (None, t1)"
    "open_wb t1 (posix_join (target_dir u) rel) = Inr (loc, t1(loc \<mapsto> File []))"
    "t' = t1(loc \<mapsto> File b)"
proof -
  obtain rel where i: "py_index (split_slash1 (filename m)) 1 = Inr rel"
    using assms by (cases "py_index (split_slash1 (filename m)) 1") (simp_all add: extract_member_def)
  have rel: "rel \<noteq> []" using file_member_rel(1) [OF assms(1) i] .
  let ?tp = "posix_join (target_dir u) rel"
  obtain r t1 where mk: "makedirs t (posix_dirname ?tp) = (r, t1)"
    by (cases "makedirs t (posix_dirname ?tp)")
  have r: "r = None"
    using assms i rel mk by (cases r) (simp_all add: extract_member_def)
  obtain loc t2 where o: "open_wb t1 ?tp = Inr (loc, t2)"
    using assms i rel mk r by (cases "open_wb t1 ?tp") (auto simp: extract_member_def)
  have t2: "t2 = t1(loc \<mapsto> File [])" using open_wb_Inr [OF o] by simp
  obtain b where b: "contents m = Some b"
    using assms i rel mk r o by (cases "contents m") (simp_all add: extract_member_def)
  have "t' = t1(loc \<mapsto> File b)"
    using assms i rel mk r o b t2 by (simp add: extract_member_def)
  then show ?thesis using that i b mk r o t2 by blast
qed

lemma makedirs_isdir:
  assumes "makedirs t name = (None, t1)"
  shows "os_path_isdir t1 name"
proof -
  have n: "name \<noteq> []" using assms by (auto simp: makedirs_def split: if_splits)
  then have m: "mkdir_p t [] (split_slash name) = (None, t1)"
    using assms by (simp add: makedirs_def)
  then have "\<exists>loc. walk (snd (mkdir_p t [] (split_slash name))) [] (split_slash name) = Inr loc"
    by (intro mkdir_p_walk) simp
  then show ?thesis using n m by (simp add: isdir_iff_walk)
qed

lemma read_back:
  assumes "open_wb t1 p = Inr (loc, t2)"
  shows "read_file (t1(loc \<mapsto> File b)) p = Inr b"
proof -
  obtain d where p: "p \<noteq> []" and w: "walk t1 [] (butlast (split_slash p)) = Inr d"
    and loc: "loc = d @ [last (split_slash p)]" and nd: "t1 loc \<noteq> Some Dir"
    and c: "last (split_slash p) \<noteq> []" "last (split_slash p) \<noteq> ''.''"
      "last (split_slash p) \<noteq> ''..''"
    using open_wb_Inr [OF assms] by blast
  have "walk (t1(loc \<mapsto> File b)) [] (butlast (split_slash p)) = Inr d"
  proof (rule walk_mono [OF _ w])
    fix q assume "t1 q = Some Dir"
    then show "(t1(loc \<mapsto> File b)) q = Some Dir" using nd by auto
  qed
  then show ?thesis using p loc c by (simp add: read_file_def lookup_def Let_def)
qed

text \<open>
  C9. For every file entry that the installation writes, the missing parent directories
  of the destination are created before the file is written: \<open>makedirs\<close> has succeeded
  and the directory of the destination exists in the tree it leaves, in which the file is
  then opened. Whatever was at the destination before, afterwards reading it gives the
  bytes of the entry.
\<close>

theorem extract_member_parents_then_file:
  assumes "\<not> is_dir m" and "extract_member u m t = (None, t')"
  shows "\<exists>rel b t1 loc.
      py_index (split_slash1 (filename m)) 1 = Inr rel \<and> contents m = Some b
    \<and> makedirs t (posix_dirname (posix_join (target_dir u) rel)) = (None, t1)
    \<and> os_path_isdir t1 (posix_dirname (posix_join (target_dir u) rel))
    \<and> t' = t1(loc \<mapsto> File b)
    \<and> read_file t' (posix_join (target_dir u) rel) = Inr b"
proof -
  obtain rel b t1 loc where i: "py_index (split_slash1 (filename m)) 1 = Inr rel"
    and b: "contents m = Some b"
    and mk: "makedirs t (posix_dirname (posix_join (target_dir u) rel)) = (None, t1)"
    and o: "open_wb t1 (posix_join (target_dir u) rel) = Inr (loc, t1(loc \<mapsto> File []))"
    and t': "t' = t1(loc \<mapsto> File b)"
    using assms by (rule extract_member_success)
  have "os_path_isdir t1 (posix_dirname (posix_join (target_dir u) rel))"
    using mk by (rule makedirs_isdir)
  moreover have "read_file t' (posix_join (target_dir u) rel) = Inr b"
    unfolding t' using o by (rule read_back)
  ultimately show ?thesis using i b mk t' by blast
qed

theorem extract_member_parents_then_file_witness:
  "\<not> os_path_isdir [[''app''] \<mapsto> Dir] ''/app/src''
   \<and> os_path_isdir (snd (makedirs [[''app''] \<mapsto> Dir] ''/app/src'')) ''/app/src''
   \<and> read_file (snd (extract_member ex_updater (ex_member ''Repo-main/src/util.py'' ''new'')
         [[''app''] \<mapsto> Dir])) ''/app/src/util.py'' = Inr ''new''
   \<and> read_file [[''app''] \<mapsto> Dir, [''app'', ''main.py''] \<mapsto> File ''old''] ''/app/main.py''
       = Inr ''old''
   \<and> read_file (snd (extract_member ex_updater (ex_member ''Repo-main/main.py'' ''new'')
         [[''app''] \<mapsto> Dir, [''app'', ''main.py''] \<mapsto> File ''old''])) ''/app/main.py''
       = Inr ''new''"
proof -
  let ?m = "ex_member ''Repo-main/src/util.py'' ''new''"
  let ?n = "ex_member ''Repo-main/main.py'' ''new''"
  let ?t = "[[''app''] \<mapsto> Dir] :: fs"
  let ?s = "[[''app''] \<mapsto> Dir, [''app'', ''main.py''] \<mapsto> File ''old''] :: fs"
  have d: "\<not> is_dir ?m" "\<not> is_dir ?n" by (simp_all add: ex_defs is_dir_def endswith_slash_def)
  have i: "py_index (split_slash1 (filename ?m)) 1 = Inr ''src/util.py''"
    "py_index (split_slash1 (filename ?n)) 1 = Inr ''main.py''"
    by (simp_all add: ex_defs py_index_def split_slash1_def)
  have p: "posix_join (target_dir ex_updater) ''src/util.py'' = ''/app/src/util.py''"
    "posix_join (target_dir ex_updater) ''main.py'' = ''/app/main.py''"
    "posix_dirname ''/app/src/util.py'' = ''/app/src''"
    by (simp_all add: ex_defs path_defs)
  have x: "fst (extract_member ex_updater ?m ?t) = None"
    "fst (extract_member ex_updater ?n ?s) = None"
    by (simp_all add: ex_defs update_defs path_defs)
  have 1: "os_path_isdir (snd (makedirs ?t ''/app/src'')) ''/app/src''
    \<and> read_file (snd (extract_member ex_updater ?m ?t)) ''/app/src/util.py'' = Inr ''new''"
    using extract_member_parents_then_file [OF d(1), of ex_updater ?t "snd (extract_member ex_updater ?m ?t)"]
      x(1) i(1) p
    by (auto simp: prod_eq_iff ex_member_def)
  have 2: "read_file (snd (extract_member ex_updater ?n ?s)) ''/app/main.py'' = Inr ''new''"
    using extract_member_parents_then_file [OF d(2), of ex_updater ?s "snd (extract_member ex_updater ?n ?s)"]
      x(2) i(2) p
    by (auto simp: prod_eq_iff ex_member_def)
  have 3: "\<not> os_path_isdir ?t ''/app/src''"
    "read_file ?s ''/app/main.py'' = Inr ''old''"
    by (simp_all add: path_defs)
  show ?thesis using 1 2 3 by blast
qed

subsection \<open>What the installation leaves alone\<close>

lemma index1_rel:
  assumes "py_index (split_slash1 s) 1 = Inr rel"
  shows "\<exists>a. s = a @ CHR ''/'' # rel \<and> CHR ''/'' \<notin> set a"
proof (cases s rule: split_slash1_cases)
  case none
  then show ?thesis using assms by (simp add: py_index_def)
next
  case (some a r)
  then show ?thesis using assms by (auto simp: py_index_def)
qed

lemma makedirs_changes:
  assumes "snd (makedirs t name) q \<noteq> t q"
  shows "t q = None \<and> snd (makedirs t name) q = Some Dir \<and> q \<noteq> []
    \<and> last q \<in> set (split_slash name)"
proof -
  have "snd (mkdir_p t [] (split_slash name)) q \<noteq> t q"
    using assms by (simp add: makedirs_def split: if_splits)
  then show ?thesis
    using mkdir_p_changes [of t "[]" "split_slash name" q] assms
    by (simp add: makedirs_def split: if_splits)
qed

lemma makedirs_preserves: "t q = Some n \<Longrightarrow> snd (makedirs t name) q = Some n"
  by (simp add: makedirs_def mkdir_p_preserves)

lemma set_split_dirname:
  "set (split_slash (posix_dirname p)) \<subseteq> insert [] (set (split_slash p))"
proof (cases p rule: last_slash_cases)
  case none
  then show ?thesis by (simp add: dirname_no_slash)
next
  case (some h b)
  then show ?thesis
    using dirname_split(2) [of b h] dirname_split(3) [of b h] by auto
qed

lemma target_components:
  assumes "py_index (split_slash1 (filename m)) 1 = Inr rel"
  shows "set (split_slash (posix_join (target_dir u) rel))
    \<subseteq> set (split_slash (target_dir u)) \<union> set (split_slash (filename m))"
proof -
  obtain a where "filename m = a @ CHR ''/'' # rel" "CHR ''/'' \<notin> set a"
    using index1_rel [OF assms] by blast
  then have "split_slash (filename m) = a # split_slash rel"
    by (simp add: set_split_rel)
  then show ?thesis
    using set_split_join [of "target_dir u" rel] by auto
qed

lemma extract_member_changes:
  assumes "snd (extract_member u m t) q \<noteq> t q"
  shows "q \<noteq> [] \<and> last q \<in> insert [] (set (split_slash (target_dir u))
    \<union> set (split_slash (filename m)))"
proof (cases u m t rule: extract_member_tree)
  case same
  then show ?thesis using assms by simp
next
  case (dirs rel)
  let ?tp = "posix_join (target_dir u) rel"
  have "q \<noteq> [] \<and> last q \<in> set (split_slash (posix_dirname ?tp))"
    using makedirs_changes [of t "posix_dirname ?tp" q] assms dirs(2) by simp
  then show ?thesis
    using set_split_dirname [of ?tp] target_components [OF dirs(1), of u] by blast
next
  case (wrote rel loc t2 x)
  let ?tp = "posix_join (target_dir u) rel"
  let ?t1 = "snd (makedirs t (posix_dirname ?tp))"
  show ?thesis
  proof (cases "q = loc")
    case True
    have "loc \<noteq> [] \<and> last loc \<in> set (split_slash ?tp)"
      using open_wb_Inr [OF wrote(2)] by auto
    then show ?thesis
      using True target_components [OF wrote(1), of u] by blast
  next
    case False
    then have "?t1 q \<noteq> t q" using assms wrote(3) by simp
    then have "q \<noteq> [] \<and> last q \<in> set (split_slash (posix_dirname ?tp))"
      using makedirs_changes [of t "posix_dirname ?tp" q] by simp
    then show ?thesis
      using set_split_dirname [of ?tp] target_components [OF wrote(1), of u] by blast
  qed
qed

lemma extract_member_keeps_dirs:
  assumes "t q = Some Dir"
  shows "snd (extract_member u m t) q = Some Dir"
proof (cases u m t rule: extract_member_tree)
  case same
  then show ?thesis using assms by simp
next
  case (dirs rel)
  then show ?thesis using makedirs_preserves [of t q Dir] assms by simp
next
  case (wrote rel loc t2 x)
  let ?t1 = "snd (makedirs t (posix_dirname (posix_join (target_dir u) rel)))"
  have d: "?t1 q = Some Dir" using makedirs_preserves [of t q Dir] assms by simp
  have "?t1 loc \<noteq> Some Dir" using open_wb_Inr [OF wrote(2)] by simp
  then have "q \<noteq> loc" using d by auto
  then show ?thesis using wrote(3) d by simp
qed

lemma extract_members_Cons_snd:
  "snd (extract_members u (m # ms) t) =
     (if fst (extract_member u m t) = None
      then snd (extract_members u ms (snd (extract_member u m t)))
      else snd (extract_member u m t))"
  by (cases "extract_member u m t") (auto split: option.splits)

lemma extract_members_changes:
  "snd (extract_members u ms t) q \<noteq> t q \<Longrightarrow>
     q \<noteq> [] \<and> last q \<in> insert [] (set (split_slash (target_dir u))
        \<union> (\<Union>m\<in>set ms. set (split_slash (filename m))))"
proof (induction ms arbitrary: t)
  case Nil
  then show ?case by simp
next
  case (Cons m ms)
  let ?t1 = "snd (extract_member u m t)"
  show ?case
  proof (cases "?t1 q = t q")
    case True
    then have "snd (extract_members u ms ?t1) q \<noteq> ?t1 q"
      using Cons.prems
      by (simp add: extract_members_Cons_snd del: extract_members.simps split: if_splits)
    then show ?thesis using Cons.IH [of ?t1] by auto
  next
    case False
    then show ?thesis using extract_member_changes [of u m t q] by auto
  qed
qed

lemma extract_members_keeps_dirs:
  "t q = Some Dir \<Longrightarrow> snd (extract_members u ms t) q = Some Dir"
proof (induction ms arbitrary: t)
  case Nil
  then show ?case by simp
next
  case (Cons m ms)
  have "snd (extract_member u m t) q = Some Dir"
    using Cons.prems by (rule extract_member_keeps_dirs)
  then show ?case
    using Cons.IH [of "snd (extract_member u m t)"]
    by (simp add: extract_members_Cons_snd del: extract_members.simps)
qed

lemma lookup_join_name:
  assumes "CHR ''/'' \<notin> set v" and "v \<noteq> []" and "v \<noteq> ''.''" and "v \<noteq> ''..''"
    and "walk t [] (split_slash a) = Inr d"
  shows "lookup t (posix_join a v) = Inr (d @ [v], t (d @ [v]))"
proof -
  have hd: "hd v \<noteq> CHR ''/''" using assms(1,2) by (cases v) auto
  have v: "split_slash v = [v]" using assms(1) by (rule split_slash_no_slash)
  consider (empty) "a = []" | (slash) a' where "a = a' @ ''/''"
    | (plain) "a \<noteq> []" "last a \<noteq> CHR ''/''"
    using snoc_slash [of a] by blast
  then have "\<exists>h. posix_join a v \<noteq> [] \<and> split_slash (posix_join a v) = h @ [v]
    \<and> walk t [] h = Inr d"
  proof cases
    case empty
    then show ?thesis using assms(2,5) hd v by (simp add: posix_join_def)
  next
    case (slash a')
    then have "posix_join a v = a' @ CHR ''/'' # v" using hd by (simp add: posix_join_def)
    moreover have "walk t [] (split_slash a') = Inr d"
      using assms(5) slash by (simp add: split_slash_snoc_slash walk_append split: sum.splits)
    ultimately show ?thesis by (simp add: split_slash_append v)
  next
    case plain
    then have "posix_join a v = a @ CHR ''/'' # v" using hd by (simp add: posix_join_def)
    then show ?thesis using assms(5) by (simp add: split_slash_append v)
  qed
  then show ?thesis using assms(2,3,4) by (auto simp: lookup_def Let_def)
qed

lemma get_local_version_lookup:
  assumes "lookup (files w) (local_version_file u) = lookup (files w') (local_version_file u)"
  shows "fst (get_local_version u e w) = fst (get_local_version u e w')"
  using assms
  by (simp add: get_local_version_def read_local_version_def os_path_exists_def read_file_def
      split: sum.splits)

text \<open>
  C5, as the specification states it: after a successful update the orchestrator has
  written the new version record, so that the local version equals the version of the
  remote manifest. It has not: here the manifest says \<open>1.0.1\<close>, the archive has no
  \<open>version.json\<close>, \<open>do_update\<close> returns \<open>True\<close>, and the local version still is
  \<open>1.0.0\<close>.
\<close>

theorem do_update_version_record_counterexample:
  "fst (do_update ex_updater
          (ex_env (ex_manifest ''1.0.1'') (Response 200 (Some ex_archive_no_record)))
          (ex_world ''{version: 1.0.0}'')) = True
   \<and> fst (get_remote_version ex_updater
          (ex_env (ex_manifest ''1.0.1'') (Response 200 (Some ex_archive_no_record)))
          (ex_world ''{version: 1.0.0}'')) = PStr ''1.0.1''
   \<and> fst (get_local_version ex_updater
          (ex_env (ex_manifest ''1.0.1'') (Response 200 (Some ex_archive_no_record)))
          (snd (do_update ex_updater
             (ex_env (ex_manifest ''1.0.1'') (Response 200 (Some ex_archive_no_record)))
             (ex_world ''{version: 1.0.0}'')))) = PStr ''1.0.0''"
  by (simp add: ex_defs update_defs path_defs check_defs)

text \<open>
  C5, amended. \<open>do_update\<close> writes no version record of its own: the local
  \<open>version.json\<close> changes only through an entry of the archive. When no entry of the
  archive has a path component \<open>version.json\<close> (and the target directory exists and is
  not itself under such a name), the local version after \<open>do_update\<close>, successful or
  not, is the local version before it, whatever the remote manifest says.
\<close>

theorem do_update_leaves_version_record:
  assumes "os_path_isdir (files w) (target_dir u)"
    and "local_version_file u = posix_join (target_dir u) ''version.json''"
    and "''version.json'' \<notin> set (split_slash (target_dir u))"
    and "\<forall>st z. zip_response e = Response st (Some z) \<longrightarrow>
           (\<forall>m\<in>set z. ''version.json'' \<notin> set (split_slash (filename m)))"
  shows "fst (get_local_version u e (snd (do_update u e w))) = fst (get_local_version u e w)"
proof -
  let ?t = "files w" and ?t' = "files (snd (do_update u e w))"
  let ?v = "''version.json''"
  have keep: "?t' q = Some Dir" if "?t q = Some Dir" for q
    using do_update_files [of u e w] extract_members_keeps_dirs [of "files w" q u] that by auto
  have frame: "?t' q = ?t q" if "q \<noteq> []" "last q = ?v" for q
  proof (rule ccontr)
    assume n: "?t' q \<noteq> ?t q"
    then obtain st z where z: "zip_response e = Response st (Some z)"
      and t': "?t' = snd (extract_members u z ?t)"
      using do_update_files [of u e w] by auto
    have "last q \<in> insert [] (set (split_slash (target_dir u))
        \<union> (\<Union>m\<in>set z. set (split_slash (filename m))))"
      using extract_members_changes [of u z ?t q] n t' by simp
    then show False using that(2) assms(3,4) z by auto
  qed
  obtain d where d: "walk ?t [] (split_slash (target_dir u)) = Inr d"
    using assms(1) by (auto simp: isdir_iff_walk)
  have d': "walk ?t' [] (split_slash (target_dir u)) = Inr d"
    using keep d by (rule walk_mono)
  have v: "CHR ''/'' \<notin> set ?v" "?v \<noteq> []" "?v \<noteq> ''.''" "?v \<noteq> ''..''" by simp_all
  have "lookup ?t (local_version_file u) = Inr (d @ [?v], ?t (d @ [?v]))"
    unfolding assms(2) using v d by (rule lookup_join_name)
  moreover have "lookup ?t' (local_version_file u) = Inr (d @ [?v], ?t' (d @ [?v]))"
    unfolding assms(2) using v d' by (rule lookup_join_name)
  moreover have "?t' (d @ [?v]) = ?t (d @ [?v])" by (rule frame) simp_all
  ultimately show ?thesis by (intro get_local_version_lookup) simp
qed

theorem do_update_leaves_version_record_witness:
  "fst (get_local_version ex_updater
          (ex_env (ex_manifest ''1.0.1'') (Response 200 (Some ex_archive_no_record)))
          (snd (do_update ex_updater
             (ex_env (ex_manifest ''1.0.1'') (Response 200 (Some ex_archive_no_record)))
             (ex_world ''{version: 1.0.0}'')))) = PStr ''1.0.0''"
proof -
  let ?e = "ex_env (ex_manifest ''1.0.1'') (Response 200 (Some ex_archive_no_record))"
  let ?w = "ex_world ''{version: 1.0.0}''"
  have a: "os_path_isdir (files ?w) (target_dir ex_updater)"
    by (simp add: ex_defs path_defs)
  have b: "local_version_file ex_updater = posix_join (target_dir ex_updater) ''version.json''"
    by (simp add: ex_defs)
  have c: "''version.json'' \<notin> set (split_slash (target_dir ex_updater))"
    by (simp add: ex_defs)
  have d: "\<forall>st z. zip_response ?e = Response st (Some z) \<longrightarrow>
           (\<forall>m\<in>set z. ''version.json'' \<notin> set (split_slash (filename m)))"
    by (simp add: ex_defs)
  have l: "fst (get_local_version ex_updater ?e ?w) = PStr ''1.0.0''"
    by (simp add: ex_defs check_defs path_defs)
  show ?thesis
    using do_update_leaves_version_record [OF a b c d] l by simp
qed

text \<open>
  With the version record in the archive, as in an archive of the repository itself, the
  local version after the update is the one the archive brings.
\<close>

lemma do_update_brings_version_record:
  "fst (get_local_version ex_updater
          (ex_env (ex_manifest ''1.0.1'') (Response 200 (Some ex_archive)))
          (snd (do_update ex_updater
             (ex_env (ex_manifest ''1.0.1'') (Response 200 (Some ex_archive)))
             (ex_world ''{version: 1.0.0}'')))) = PStr ''1.0.1''"
  by (simp add: ex_defs update_defs path_defs check_defs)

subsection \<open>Plain paths\<close>


lemma walk_clean_dirs:
  assumes "clean cs"
    and "\<forall>k. 0 < k \<and> k \<le> length cs \<longrightarrow> t (cur @ take k cs) = Some Dir"
  shows "walk t cur cs = Inr (cur @ cs)"
  using assms by (intro walk_clean) auto







subsection \<open>A well-formed archive\<close>










section \<open>The entry points\<close>

lemma updater_cli_force:
  "fst (updater_cli (args\<lparr>arg_force := True\<rparr>) u e w)
     = (case execv_error e of None \<Rightarrow> Replaced | Some err \<Rightarrow> Raised (OSError err))"
  by (simp add: updater_cli_def restart_program_def Let_def split: prod.splits option.splits)

lemma updater_cli_update:
  assumes "arg_update args" and "fst (check_for_updates u e w) = Inr (True, l, r)"
  shows "fst (updater_cli args u e w)
     = (case execv_error e of None \<Rightarrow> Replaced | Some err \<Rightarrow> Raised (OSError err))"
  using assms
  by (cases "check_for_updates u e w")
    (simp add: updater_cli_def restart_program_def Let_def split: prod.splits option.splits)

lemma app_main_failed_update:
  assumes "fst (check_for_updates u e (say Print_initializing w)) = Inr (True, l, r)"
    and "fst (do_update u e (say (Print_new_version r) (snd (check_for_updates u e (say Print_initializing w))))) = False"
    and "stdin_line e \<noteq> None"
  shows "fst (app_main u e w) = Returned"
  using assms
  by (cases "check_for_updates u e (say Print_initializing w)")
    (auto simp: app_main_def Let_def split: prod.splits option.splits)

text \<open>
  C6. When the installation step fails the process is not restarted. The command line
  dispatch of \<open>updater.py\<close> does restart it: it drops the result of \<open>do_update\<close>
  and calls \<open>restart_program\<close> in any case. Here the second member of the archive has
  no \<open>/\<close>, \<open>do_update\<close> returns \<open>False\<close>, and both \<open>--force\<close> and
  \<open>--update\<close> end with the process image replaced, while \<open>main()\<close> of
  \<open>main.py\<close>, which tests the result, runs on.
\<close>

theorem cli_restarts_after_failed_install:
  "fst (do_update ex_updater (ex_env (ex_manifest ''1.0.1'') (Response 200 (Some ex_archive_bare)))
          (ex_world ''{version: 1.0.0}'')) = False
   \<and> fst (updater_cli ex_force ex_updater
          (ex_env (ex_manifest ''1.0.1'') (Response 200 (Some ex_archive_bare)))
          (ex_world ''{version: 1.0.0}'')) = Replaced
   \<and> fst (updater_cli ex_update ex_updater
          (ex_env (ex_manifest ''1.0.1'') (Response 200 (Some ex_archive_bare)))
          (ex_world ''{version: 1.0.0}'')) = Replaced
   \<and> fst (app_main ex_updater
          (ex_env (ex_manifest ''1.0.1'') (Response 200 (Some ex_archive_bare)))
          (ex_world ''{version: 1.0.0}'')) = Returned"
proof -
  let ?e = "ex_env (ex_manifest ''1.0.1'') (Response 200 (Some ex_archive_bare))"
  let ?w = "ex_world ''{version: 1.0.0}''"
  have z: "zip_response ?e
    = Response 200 (Some ([ex_member ''Repo-main/a.txt'' ''A''] @ ex_member ''README'' ''R''
        # [ex_member ''Repo-main/b.txt'' ''B'']))"
    by (simp add: ex_defs)
  have s: "raise_for_status 200 = None" by (simp add: raise_for_status_def)
  have b: "CHR ''/'' \<notin> set (filename (ex_member ''README'' ''R''))"
    by (simp add: ex_defs)
  have ne: "[ex_member ''Repo-main/a.txt'' ''A''] @ ex_member ''README'' ''R''
        # [ex_member ''Repo-main/b.txt'' ''B''] \<noteq> []" by simp
  have d: "fst (do_update ex_updater ?e w) = False" for w
    using do_update_archive(1) [OF z s ne, of ex_updater w]
      extract_members_bare(1) [OF b, of ex_updater "[ex_member ''Repo-main/a.txt'' ''A'']"
        "[ex_member ''Repo-main/b.txt'' ''B'']" "files w"]
    by simp
  have l: "fst (get_local_version ex_updater ?e w) = PStr ''1.0.0''"
    if "files w = files ?w" for w :: "unit world"
    using that by (simp add: ex_defs get_local_version_def read_local_version_def json_get_def path_defs)
  have r: "fst (get_remote_version ex_updater ?e w) = PStr ''1.0.1''" for w
    by (simp add: ex_defs check_defs)
  have lt: "''1.0.0'' < ''1.0.1''" by (simp add: less_char_def)
  have c: "fst (check_for_updates ex_updater ?e w) = Inr (True, PStr ''1.0.0'', PStr ''1.0.1'')"
    if "files w = files ?w" for w :: "unit world"
    using check_for_updates_strings [OF l [OF that] r] lt by simp
  have x: "execv_error ?e = None" "stdin_line ?e \<noteq> None" "arg_update ex_update"
    "ex_force = ex_force\<lparr>arg_force := True\<rparr>"
    by (simp_all add: ex_defs)
  have f: "fst (updater_cli ex_force ex_updater ?e ?w) = Replaced"
    using updater_cli_force [of ex_force ex_updater ?e ?w] x by simp
  have g: "fst (updater_cli ex_update ex_updater ?e ?w) = Replaced"
    using updater_cli_update [OF x(3) c, of ?w] x by simp
  have h: "fst (app_main ex_updater ?e ?w) = Returned"
    by (rule app_main_failed_update [OF c d x(2)]) simp
  show ?thesis using d f g h by simp
qed

end
